theory Spec2Isabelle
  imports Main
begin

section \<open>The CSS selector builder of \<^verbatim>\<open>05-objects-tasks.js\<close>\<close>

text \<open>
  The source is JavaScript. A \<^verbatim>\<open>Builder\<close> instance is a mutable object: the
  fragment methods assign to the fields of \<^verbatim>\<open>this\<close> and return \<^verbatim>\<open>this\<close>.
  Objects therefore live in an explicit store, a list of objects indexed by their
  address; a method takes the address of its receiver and the store, and returns
  its outcome together with the store it leaves behind. A \<^verbatim>\<open>throw\<close> is the
  outcome \<open>Inl\<close>, a \<^verbatim>\<open>return\<close> the outcome \<open>Inr\<close>.

  JavaScript strings are modelled as \<^typ>\<open>string\<close>; the builder only ever
  concatenates them. The six flags are never initialised by the constructor, so
  they read \<^verbatim>\<open>undefined\<close> until a method assigns \<^verbatim>\<open>true\<close>; the code only
  tests their truthiness, so \<^verbatim>\<open>undefined\<close> is modelled as \<open>False\<close>.
\<close>

subsection \<open>Errors and messages\<close>

text \<open>The builder throws \<^verbatim>\<open>new Error(message)\<close>: one error class, told apart by
  its message only. \<open>TypeError\<close> and \<open>SyntaxError\<close> are what the engine's own
  functions throw (\<^verbatim>\<open>Object.setPrototypeOf\<close>, \<^verbatim>\<open>JSON.parse\<close>).\<close>

datatype error = Error string | TypeError | SyntaxError

definition OneTimeInsideError :: string where
  "OneTimeInsideError =
     ''Element, id and pseudo-element should not occur more then one time inside the selector''"

definition FollowingOrderError :: string where
  "FollowingOrderError =
     ''Selector parts should be arranged in the following order: element, id, class, attribute, pseudo-class, pseudo-element''"

subsection \<open>Objects and the store\<close>

record Builder =
  value1 :: string
  elementExist :: bool
  idExist :: bool
  classExist :: bool
  attrExist :: bool
  pseudoClassExist :: bool
  pseudoElementExist :: bool

type_synonym ref = nat

type_synonym heap = "Builder list"

type_synonym 'a outcome = "(error + 'a) \<times> heap"

text \<open>\<^verbatim>\<open>constructor(value)\<close>: the text is empty unless an argument was passed
  (\<^verbatim>\<open>arguments.length > 0\<close>).\<close>

definition Builder_constructor :: "string option \<Rightarrow> Builder" where
  "Builder_constructor arg =
     \<lparr>value1 = (case arg of None \<Rightarrow> [] | Some v \<Rightarrow> v),
      elementExist = False, idExist = False, classExist = False,
      attrExist = False, pseudoClassExist = False, pseudoElementExist = False\<rparr>"

text \<open>\<^verbatim>\<open>new Builder(...)\<close> allocates the object at the next free address.\<close>

definition new_Builder :: "string option \<Rightarrow> heap \<Rightarrow> ref \<times> heap" where
  "new_Builder arg h = (length h, h @ [Builder_constructor arg])"

text \<open>\<^verbatim>\<open>this.value1 += e\<close>: JavaScript reads the old text first, evaluates
  \<open>e\<close> (which may call into other objects), then stores the concatenation.\<close>

definition append_value1 :: "ref \<Rightarrow> (heap \<Rightarrow> string \<times> heap) \<Rightarrow> heap \<Rightarrow> heap" where
  "append_value1 this rhs h =
     (let old = value1 (h ! this);
          (s, h1) = rhs h
      in h1[this := (h1 ! this)\<lparr>value1 := old @ s\<rparr>])"

subsection \<open>The methods of \<^verbatim>\<open>Builder\<close>\<close>

definition Builder_stringify :: "ref \<Rightarrow> heap \<Rightarrow> string \<times> heap" where
  "Builder_stringify this h = (value1 (h ! this), h)"

definition Builder_element :: "ref \<Rightarrow> string \<Rightarrow> heap \<Rightarrow> ref outcome" where
  "Builder_element this v h =
     (if elementExist (h ! this) then (Inl (Error OneTimeInsideError), h)
      else if idExist (h ! this) \<or> classExist (h ! this) \<or> attrExist (h ! this)
              \<or> pseudoClassExist (h ! this) \<or> pseudoElementExist (h ! this)
      then (Inl (Error FollowingOrderError), h)
      else
        let h1 = h[this := (h ! this)\<lparr>elementExist := True\<rparr>];
            h2 = append_value1 this (Pair v) h1
        in (Inr this, h2))"

definition Builder_id :: "ref \<Rightarrow> string \<Rightarrow> heap \<Rightarrow> ref outcome" where
  "Builder_id this v h =
     (if idExist (h ! this) then (Inl (Error OneTimeInsideError), h)
      else if classExist (h ! this) \<or> attrExist (h ! this)
              \<or> pseudoClassExist (h ! this) \<or> pseudoElementExist (h ! this)
      then (Inl (Error FollowingOrderError), h)
      else
        let h1 = h[this := (h ! this)\<lparr>idExist := True\<rparr>];
            h2 = append_value1 this (Pair ''#'') h1;
            h3 = append_value1 this (Pair v) h2
        in (Inr this, h3))"

definition Builder_class :: "ref \<Rightarrow> string \<Rightarrow> heap \<Rightarrow> ref outcome" where
  "Builder_class this v h =
     (if attrExist (h ! this) \<or> pseudoClassExist (h ! this) \<or> pseudoElementExist (h ! this)
      then (Inl (Error FollowingOrderError), h)
      else
        let h1 = h[this := (h ! this)\<lparr>classExist := True\<rparr>];
            h2 = append_value1 this (Pair ''.'') h1;
            h3 = append_value1 this (Pair v) h2
        in (Inr this, h3))"

definition Builder_attr :: "ref \<Rightarrow> string \<Rightarrow> heap \<Rightarrow> ref outcome" where
  "Builder_attr this v h =
     (if pseudoClassExist (h ! this) \<or> pseudoElementExist (h ! this)
      then (Inl (Error FollowingOrderError), h)
      else
        let h1 = h[this := (h ! this)\<lparr>attrExist := True\<rparr>];
            h2 = append_value1 this (Pair ''['') h1;
            h3 = append_value1 this (Pair v) h2;
            h4 = append_value1 this (Pair '']'') h3
        in (Inr this, h4))"

definition Builder_pseudoClass :: "ref \<Rightarrow> string \<Rightarrow> heap \<Rightarrow> ref outcome" where
  "Builder_pseudoClass this v h =
     (if pseudoElementExist (h ! this)
      then (Inl (Error FollowingOrderError), h)
      else
        let h1 = h[this := (h ! this)\<lparr>pseudoClassExist := True\<rparr>];
            h2 = append_value1 this (Pair '':'') h1;
            h3 = append_value1 this (Pair v) h2
        in (Inr this, h3))"

definition Builder_pseudoElement :: "ref \<Rightarrow> string \<Rightarrow> heap \<Rightarrow> ref outcome" where
  "Builder_pseudoElement this v h =
     (if pseudoElementExist (h ! this) then (Inl (Error OneTimeInsideError), h)
      else
        let h1 = h[this := (h ! this)\<lparr>pseudoElementExist := True\<rparr>];
            h2 = append_value1 this (Pair ''::'') h1;
            h3 = append_value1 this (Pair v) h2
        in (Inr this, h3))"

text \<open>
  \<^verbatim>\<open>combine\<close> calls \<^verbatim>\<open>stringify()\<close> on its two selector arguments, whatever
  objects they are, and does nothing else with them. An argument is therefore
  modelled by its \<^verbatim>\<open>stringify\<close> method: any function that takes the store and
  returns a string together with the store it leaves behind. For the builder at
  address \<open>r\<close> that method is \<open>Builder_stringify r\<close>; the method of another object
  may do anything to the store.
\<close>

type_synonym stringify_method = "heap \<Rightarrow> string \<times> heap"

definition Builder_combine :: "ref \<Rightarrow> stringify_method \<Rightarrow> string \<Rightarrow> stringify_method \<Rightarrow> heap \<Rightarrow> ref outcome" where
  "Builder_combine this selector1 combinator selector2 h =
     (let h1 = append_value1 this selector1 h;
          h2 = append_value1 this (Pair '' '') h1;
          h3 = append_value1 this (Pair combinator) h2;
          h4 = append_value1 this (Pair '' '') h3;
          h5 = append_value1 this selector2 h4
      in (Inr this, h5))"

subsection \<open>The facade \<^verbatim>\<open>cssSelectorBuilder\<close>\<close>

definition cssSelectorBuilder_element :: "string \<Rightarrow> heap \<Rightarrow> ref outcome" where
  "cssSelectorBuilder_element v h = (let (b, h1) = new_Builder None h in Builder_element b v h1)"

definition cssSelectorBuilder_id :: "string \<Rightarrow> heap \<Rightarrow> ref outcome" where
  "cssSelectorBuilder_id v h = (let (b, h1) = new_Builder None h in Builder_id b v h1)"

definition cssSelectorBuilder_class :: "string \<Rightarrow> heap \<Rightarrow> ref outcome" where
  "cssSelectorBuilder_class v h = (let (b, h1) = new_Builder None h in Builder_class b v h1)"

definition cssSelectorBuilder_attr :: "string \<Rightarrow> heap \<Rightarrow> ref outcome" where
  "cssSelectorBuilder_attr v h = (let (b, h1) = new_Builder None h in Builder_attr b v h1)"

definition cssSelectorBuilder_pseudoClass :: "string \<Rightarrow> heap \<Rightarrow> ref outcome" where
  "cssSelectorBuilder_pseudoClass v h =
     (let (b, h1) = new_Builder None h in Builder_pseudoClass b v h1)"

definition cssSelectorBuilder_pseudoElement :: "string \<Rightarrow> heap \<Rightarrow> ref outcome" where
  "cssSelectorBuilder_pseudoElement v h =
     (let (b, h1) = new_Builder None h in Builder_pseudoElement b v h1)"

definition cssSelectorBuilder_combine :: "stringify_method \<Rightarrow> string \<Rightarrow> stringify_method \<Rightarrow> heap \<Rightarrow> ref outcome" where
  "cssSelectorBuilder_combine selector1 combinator selector2 h =
     (let (b, h1) = new_Builder None h in Builder_combine b selector1 combinator selector2 h1)"

subsection \<open>Calls, chains of calls and selector expressions\<close>

text \<open>The six fragment methods, named by their category, so that a sequence of
  calls is a list.\<close>

datatype category = Element | Id | Class | Attr | PseudoClass | PseudoElement

fun Builder_fragment :: "category \<Rightarrow> ref \<Rightarrow> string \<Rightarrow> heap \<Rightarrow> ref outcome" where
  "Builder_fragment Element = Builder_element"
| "Builder_fragment Id = Builder_id"
| "Builder_fragment Class = Builder_class"
| "Builder_fragment Attr = Builder_attr"
| "Builder_fragment PseudoClass = Builder_pseudoClass"
| "Builder_fragment PseudoElement = Builder_pseudoElement"

fun cssSelectorBuilder_fragment :: "category \<Rightarrow> string \<Rightarrow> heap \<Rightarrow> ref outcome" where
  "cssSelectorBuilder_fragment Element = cssSelectorBuilder_element"
| "cssSelectorBuilder_fragment Id = cssSelectorBuilder_id"
| "cssSelectorBuilder_fragment Class = cssSelectorBuilder_class"
| "cssSelectorBuilder_fragment Attr = cssSelectorBuilder_attr"
| "cssSelectorBuilder_fragment PseudoClass = cssSelectorBuilder_pseudoClass"
| "cssSelectorBuilder_fragment PseudoElement = cssSelectorBuilder_pseudoElement"

text \<open>The flag a category is recorded in.\<close>

fun category_flag :: "category \<Rightarrow> Builder \<Rightarrow> bool" where
  "category_flag Element = elementExist"
| "category_flag Id = idExist"
| "category_flag Class = classExist"
| "category_flag Attr = attrExist"
| "category_flag PseudoClass = pseudoClassExist"
| "category_flag PseudoElement = pseudoElementExist"

text \<open>A chained expression \<^verbatim>\<open>b.m1(v1).m2(v2)...\<close>: every call is made on the
  object the previous call returned, and the first \<^verbatim>\<open>throw\<close> ends the chain.\<close>

fun chain :: "(category \<times> string) list \<Rightarrow> ref \<Rightarrow> heap \<Rightarrow> ref outcome" where
  "chain [] b h = (Inr b, h)"
| "chain ((k, v) # cs) b h =
     (case Builder_fragment k b v h of
        (Inl e, h1) \<Rightarrow> (Inl e, h1)
      | (Inr b1, h1) \<Rightarrow> chain cs b1 h1)"

text \<open>\<^verbatim>\<open>cssSelectorBuilder.m1(v1).m2(v2)...stringify()\<close>: a facade entry call, the
  chained calls, and the final read.\<close>

definition selector_expression :: "category \<times> string \<Rightarrow> (category \<times> string) list \<Rightarrow> heap \<Rightarrow> string outcome" where
  "selector_expression c cs h =
     (case cssSelectorBuilder_fragment (fst c) (snd c) h of
        (Inl e, h1) \<Rightarrow> (Inl e, h1)
      | (Inr b, h1) \<Rightarrow>
          (case chain cs b h1 of
             (Inl e, h2) \<Rightarrow> (Inl e, h2)
           | (Inr b1, h2) \<Rightarrow> (let (s, h3) = Builder_stringify b1 h2 in (Inr s, h3))))"

text \<open>\<^verbatim>\<open>b.stringify()\<close> called \<open>n\<close> times in a row: the strings returned, in
  order, and the store left behind.\<close>

fun stringify_times :: "nat \<Rightarrow> ref \<Rightarrow> heap \<Rightarrow> string list \<times> heap" where
  "stringify_times 0 b h = ([], h)"
| "stringify_times (Suc n) b h =
     (let (s, h1) = Builder_stringify b h;
          (ss, h2) = stringify_times n b h1
      in (s # ss, h2))"

text \<open>Nested \<^verbatim>\<open>cssSelectorBuilder.combine(...)\<close> expressions: a leaf is a selector
  that already exists, a node evaluates its left argument, then its right argument,
  then calls the facade's \<^verbatim>\<open>combine\<close> on the two results. The value of a node is
  the builder \<^verbatim>\<open>combine\<close> returned, as a selector.\<close>

datatype combination = Leaf stringify_method | Combine combination string combination

fun combine_expression :: "combination \<Rightarrow> heap \<Rightarrow> stringify_method outcome" where
  "combine_expression (Leaf s) h = (Inr s, h)"
| "combine_expression (Combine l c r) h =
     (case combine_expression l h of
        (Inl e, h1) \<Rightarrow> (Inl e, h1)
      | (Inr a, h1) \<Rightarrow>
          (case combine_expression r h1 of
             (Inl e, h2) \<Rightarrow> (Inl e, h2)
           | (Inr b, h2) \<Rightarrow>
               (case cssSelectorBuilder_combine a c b h2 of
                  (Inl e, h3) \<Rightarrow> (Inl e, h3)
                | (Inr x, h3) \<Rightarrow> (Inr (Builder_stringify x), h3))))"

text \<open>The seven entry points of the facade as one function. The selectors handed to
  the \<^verbatim>\<open>combine\<close> entry are here builders in the store, or other objects whose
  \<^verbatim>\<open>stringify()\<close> returns a fixed string without touching the store.\<close>

datatype selector = BuilderRef ref | Duck string

fun selector_stringify :: "selector \<Rightarrow> stringify_method" where
  "selector_stringify (BuilderRef r) h = Builder_stringify r h"
| "selector_stringify (Duck s) h = (s, h)"

datatype entry = Fragment category string | Combination selector string selector

fun cssSelectorBuilder_call :: "entry \<Rightarrow> heap \<Rightarrow> ref outcome" where
  "cssSelectorBuilder_call (Fragment k v) h = cssSelectorBuilder_fragment k v h"
| "cssSelectorBuilder_call (Combination a c b) h =
     cssSelectorBuilder_combine (selector_stringify a) c (selector_stringify b) h"

text \<open>
  A \<^verbatim>\<open>stringify\<close> method is a read of the objects that exist in the store \<open>h\<close>
  when, in \<open>h\<close> and in every store that holds newer objects after those of \<open>h\<close>, it
  returns the string it returns in \<open>h\<close> and leaves the store as it is.
\<close>

definition pure_read :: "stringify_method \<Rightarrow> heap \<Rightarrow> bool" where
  "pure_read s h = (\<forall>e. s (h @ e) = (fst (s h), h @ e))"

text \<open>
  An object exposing \<^verbatim>\<open>stringify()\<close> that is not a read: it keeps a tally in the
  text of the builder \<open>n\<close>, and every call adds a stroke and returns \<^verbatim>\<open>d\<close> followed
  by the tally:
  \<^verbatim>\<open>{ stringify() { n.value1 += 'I'; return 'd' + n.value1; } }\<close>.
\<close>

definition counting_stringify :: "ref \<Rightarrow> stringify_method" where
  "counting_stringify n h =
     (let h1 = h[n := (h ! n)\<lparr>value1 := value1 (h ! n) @ ''I''\<rparr>]
      in (''d'' @ value1 (h1 ! n), h1))"

fun leaves :: "combination \<Rightarrow> stringify_method list" where
  "leaves (Leaf s) = [s]"
| "leaves (Combine l c r) = leaves l @ leaves r"

subsection \<open>What the specification expects\<close>

text \<open>The text the specification gives for one fragment: the value verbatim for an
  element, and the category's own prefix (and suffix) otherwise.\<close>

fun spec_fragment_text :: "category \<times> string \<Rightarrow> string" where
  "spec_fragment_text (Element, v) = v"
| "spec_fragment_text (Id, v) = ''#'' @ v"
| "spec_fragment_text (Class, v) = ''.'' @ v"
| "spec_fragment_text (Attr, v) = ''['' @ v @ '']''"
| "spec_fragment_text (PseudoClass, v) = '':'' @ v"
| "spec_fragment_text (PseudoElement, v) = ''::'' @ v"

text \<open>The specification's category order, and the categories that may occur only
  once.\<close>

fun category_rank :: "category \<Rightarrow> nat" where
  "category_rank Element = 0"
| "category_rank Id = 1"
| "category_rank Class = 2"
| "category_rank Attr = 3"
| "category_rank PseudoClass = 4"
| "category_rank PseudoElement = 5"

fun once_only :: "category \<Rightarrow> bool" where
  "once_only Element = True"
| "once_only Id = True"
| "once_only PseudoElement = True"
| "once_only k = False"

definition occurrences :: "category \<Rightarrow> (category \<times> string) list \<Rightarrow> nat" where
  "occurrences k cs = length (filter (\<lambda>c. fst c = k) cs)"

text \<open>A sequence of calls respects the weak category order: the ranks never
  decrease, and element, id and pseudo-element occur at most once.\<close>

definition respects_order :: "(category \<times> string) list \<Rightarrow> bool" where
  "respects_order cs =
     (sorted (map (category_rank \<circ> fst) cs)
      \<and> occurrences Element cs \<le> 1 \<and> occurrences Id cs \<le> 1
      \<and> occurrences PseudoElement cs \<le> 1)"

text \<open>The two messages as the specification quotes them.\<close>

definition spec_DuplicateError_message :: string where
  "spec_DuplicateError_message =
     ''Element, id and pseudo-element should not occur more than one time inside the selector''"

definition spec_OrderError_message :: string where
  "spec_OrderError_message =
     ''Selector parts should be arranged in the following order: element, id, class, attribute, pseudo-class, pseudo-element''"

text \<open>The text the specification gives for a nested combination: left text, one
  space, the combinator, one space, right text. The text of a leaf is what its
  \<^verbatim>\<open>stringify()\<close> returns in the store \<open>h\<close>.\<close>

fun spec_combination_text :: "combination \<Rightarrow> heap \<Rightarrow> string" where
  "spec_combination_text (Leaf s) h = fst (s h)"
| "spec_combination_text (Combine l c r) h =
     spec_combination_text l h @ '' '' @ c @ '' '' @ spec_combination_text r h"

text \<open>
  The equation the specification gives for \<^verbatim>\<open>combine\<close>, as a caller checks it:
  \<^verbatim>\<open>combine(a, c, b).stringify() === a.stringify() + ' ' + c + ' ' + b.stringify()\<close>,
  evaluated from left to right.
\<close>

definition spec_combine_equation :: "stringify_method \<Rightarrow> string \<Rightarrow> stringify_method \<Rightarrow> heap \<Rightarrow> bool" where
  "spec_combine_equation a c b h =
     (case cssSelectorBuilder_combine a c b h of
        (Inl e, h1) \<Rightarrow> False
      | (Inr x, h1) \<Rightarrow>
          (let (s, h2) = Builder_stringify x h1;
               (ta, h3) = a h2;
               (tb, h4) = b h3
           in s = ta @ '' '' @ c @ '' '' @ tb))"

section \<open>The rectangle factory\<close>

text \<open>
  \<^verbatim>\<open>Rectangle(width, height)\<close> returns an object literal with the two properties
  and a method \<^verbatim>\<open>getArea\<close> whose body multiplies the parameters \<^verbatim>\<open>width\<close> and
  \<^verbatim>\<open>height\<close> of the enclosing call, not the properties of \<^verbatim>\<open>this\<close>. The
  method is therefore a closure that ignores its receiver. Numbers are kept abstract:
  any type with a multiplication.
\<close>

record 'n rectangle =
  width :: 'n
  height :: 'n
  getArea :: "unit \<Rightarrow> 'n"

definition Rectangle :: "'n::times \<Rightarrow> 'n \<Rightarrow> 'n rectangle" where
  "Rectangle w h = \<lparr>width = w, height = h, getArea = (\<lambda>_. w * h)\<rparr>"

section \<open>The JSON helpers\<close>

text \<open>
  \<^verbatim>\<open>getJSON\<close> and \<^verbatim>\<open>fromJSON\<close> wrap three functions of the JavaScript engine.
  \<^verbatim>\<open>JSON.stringify\<close> and \<^verbatim>\<open>JSON.parse\<close> are not code of this repository: they
  are parameters of the two helpers. \<^verbatim>\<open>Object.setPrototypeOf\<close> is modelled below.

  An object has its own enumerable properties, in order, and a prototype
  (\<open>None\<close> is \<^verbatim>\<open>null\<close>). Property values are kept abstract and compared by
  content. A value is \<^verbatim>\<open>null\<close>, another primitive, or a reference to an object in
  the store.
\<close>

record 'v object =
  properties :: "(string \<times> 'v) list"
  prototype :: "ref option"

datatype 'v jsvalue = Null | Primitive 'v | Reference ref

type_synonym 'v objects = "'v object list"

text \<open>
  \<^verbatim>\<open>Object.setPrototypeOf(O, proto)\<close>, for \<open>proto\<close> an object or \<^verbatim>\<open>null\<close>:
  throws a \<^verbatim>\<open>TypeError\<close> when \<open>O\<close> is \<^verbatim>\<open>null\<close>, returns a primitive \<open>O\<close>
  untouched, and sets the prototype slot of an object \<open>O\<close> (an ordinary, extensible
  object that is not on the prototype chain of \<open>proto\<close>, as a freshly parsed one is)
  and returns \<open>O\<close>.
\<close>

fun Object_setPrototypeOf :: "'v jsvalue \<Rightarrow> ref option \<Rightarrow> 'v objects \<Rightarrow> (error + 'v jsvalue) \<times> 'v objects" where
  "Object_setPrototypeOf Null proto h = (Inl TypeError, h)"
| "Object_setPrototypeOf (Primitive p) proto h = (Inr (Primitive p), h)"
| "Object_setPrototypeOf (Reference r) proto h =
     (Inr (Reference r), h[r := (h ! r)\<lparr>prototype := proto\<rparr>])"

text \<open>\<^verbatim>\<open>getJSON(obj)\<close> returns what \<^verbatim>\<open>JSON.stringify(obj)\<close> returns.\<close>

definition getJSON :: "('v jsvalue \<Rightarrow> 'v objects \<Rightarrow> error + string) \<Rightarrow> 'v jsvalue \<Rightarrow> 'v objects \<Rightarrow> error + string" where
  "getJSON JSON_stringify obj h = JSON_stringify obj h"

text \<open>\<^verbatim>\<open>fromJSON(proto, json)\<close>: parse, set the prototype of the parsed value,
  return the parsed value. A \<^verbatim>\<open>throw\<close> of either call ends the function.\<close>

definition fromJSON :: "(string \<Rightarrow> 'v objects \<Rightarrow> (error + 'v jsvalue) \<times> 'v objects) \<Rightarrow> ref option \<Rightarrow> string \<Rightarrow> 'v objects \<Rightarrow> (error + 'v jsvalue) \<times> 'v objects" where
  "fromJSON JSON_parse proto json h =
     (case JSON_parse json h of
        (Inl e, h1) \<Rightarrow> (Inl e, h1)
      | (Inr objJSON, h1) \<Rightarrow>
          (case Object_setPrototypeOf objJSON proto h1 of
             (Inl e, h2) \<Rightarrow> (Inl e, h2)
           | (Inr _, h2) \<Rightarrow> (Inr objJSON, h2)))"

section \<open>Basic facts about the store\<close>

lemma append_value1_Pair:
  "append_value1 this (Pair s) h = h[this := (h ! this)\<lparr>value1 := value1 (h ! this) @ s\<rparr>]"
  by (simp add: append_value1_def)

lemma length_append_value1_Pair [simp]:
  "length (append_value1 this (Pair s) h) = length h"
  by (simp add: append_value1_Pair)

section \<open>One call of a fragment method\<close>

lemmas Builder_method_defs =
  Builder_element_def Builder_id_def Builder_class_def Builder_attr_def
  Builder_pseudoClass_def Builder_pseudoElement_def

lemma Builder_fragment_duplicate:
  assumes "once_only k" and "category_flag k (h ! this)"
  shows "Builder_fragment k this v h = (Inl (Error OneTimeInsideError), h)"
  using assms by (cases k) (simp_all add: Builder_method_defs)

lemma Builder_fragment_out_of_order:
  assumes "category_rank k < category_rank k'" and "category_flag k' (h ! this)"
    and "\<not> (once_only k \<and> category_flag k (h ! this))"
  shows "Builder_fragment k this v h = (Inl (Error FollowingOrderError), h)"
  using assms by (cases k; cases k') (simp_all add: Builder_method_defs)

lemma Builder_fragment_accepted:
  assumes live: "this < length h"
    and fresh: "\<not> (once_only k \<and> category_flag k (h ! this))"
    and order: "\<forall>k'. category_rank k < category_rank k' \<longrightarrow> \<not> category_flag k' (h ! this)"
  shows "\<exists>b. Builder_fragment k this v h = (Inr this, h[this := b])
             \<and> value1 b = value1 (h ! this) @ spec_fragment_text (k, v)
             \<and> (\<forall>k'. category_flag k' b = (k' = k \<or> category_flag k' (h ! this)))"
proof -
  note o = order[rule_format]
  have later: "\<forall>k'. category_rank k < category_rank k' \<longrightarrow> \<not> category_flag k' (h ! this)"
    using order .
  show ?thesis
  proof (cases k)
    case Element
    then show ?thesis
      using live fresh o[of Id] o[of Class] o[of Attr] o[of PseudoClass] o[of PseudoElement]
      apply (simp add: Builder_method_defs append_value1_Pair Let_def)
      apply (rule exI, intro conjI, rule refl)
       apply simp
      apply (rule allI)
      subgoal for k' by (cases k') simp_all
      done
  next
    case Id
    then show ?thesis
      using live fresh o[of Class] o[of Attr] o[of PseudoClass] o[of PseudoElement]
      apply (simp add: Builder_method_defs append_value1_Pair Let_def)
      apply (rule exI, intro conjI, rule refl)
       apply simp
      apply (rule allI)
      subgoal for k' by (cases k') simp_all
      done
  next
    case Class
    then show ?thesis
      using live fresh o[of Attr] o[of PseudoClass] o[of PseudoElement]
      apply (simp add: Builder_method_defs append_value1_Pair Let_def)
      apply (rule exI, intro conjI, rule refl)
       apply simp
      apply (rule allI)
      subgoal for k' by (cases k') simp_all
      done
  next
    case Attr
    then show ?thesis
      using live fresh o[of PseudoClass] o[of PseudoElement]
      apply (simp add: Builder_method_defs append_value1_Pair Let_def)
      apply (rule exI, intro conjI, rule refl)
       apply simp
      apply (rule allI)
      subgoal for k' by (cases k') simp_all
      done
  next
    case PseudoClass
    then show ?thesis
      using live fresh o[of PseudoElement]
      apply (simp add: Builder_method_defs append_value1_Pair Let_def)
      apply (rule exI, intro conjI, rule refl)
       apply simp
      apply (rule allI)
      subgoal for k' by (cases k') simp_all
      done
  next
    case PseudoElement
    then show ?thesis
      using live fresh
      apply (simp add: Builder_method_defs append_value1_Pair Let_def)
      apply (rule exI, intro conjI, rule refl)
       apply simp
      apply (rule allI)
      subgoal for k' by (cases k') simp_all
      done
  qed
qed


section \<open>Chains of calls\<close>

lemma chain_append:
  "chain (cs @ ds) b h =
     (case chain cs b h of (Inl e, h1) \<Rightarrow> (Inl e, h1) | (Inr b1, h1) \<Rightarrow> chain ds b1 h1)"
proof (induction cs arbitrary: b h)
  case Nil
  show ?case by simp
next
  case (Cons c cs)
  obtain k v where c: "c = (k, v)" by (cases c)
  show ?case
    by (cases "Builder_fragment k b v h") (auto simp: c Cons.IH split: sum.splits)
qed

lemma occurrences_snoc:
  "occurrences k (cs @ [c]) = occurrences k cs + (if fst c = k then 1 else 0)"
  by (simp add: occurrences_def)

lemma occurrences_zero: "occurrences k cs = 0 \<longleftrightarrow> k \<notin> fst ` set cs"
  by (auto simp: occurrences_def filter_empty_conv)

lemma respects_order_snoc:
  assumes "respects_order (cs @ [c])"
  shows "respects_order cs"
    and "\<forall>k \<in> fst ` set cs. category_rank k \<le> category_rank (fst c)"
    and "once_only (fst c) \<Longrightarrow> fst c \<notin> fst ` set cs"
proof -
  from assms show "respects_order cs"
    by (simp add: respects_order_def sorted_append occurrences_snoc split: if_splits)
  from assms show "\<forall>k \<in> fst ` set cs. category_rank k \<le> category_rank (fst c)"
    by (simp add: respects_order_def sorted_append)
  assume "once_only (fst c)"
  with assms have "occurrences (fst c) (cs @ [c]) \<le> 1"
    by (cases "fst c") (simp_all add: respects_order_def)
  then have "occurrences (fst c) cs = 0"
    by (simp add: occurrences_snoc)
  then show "fst c \<notin> fst ` set cs"
    by (simp add: occurrences_zero)
qed

lemma chain_in_order:
  assumes "respects_order cs" and "this < length h"
    and "\<forall>k. \<not> category_flag k (h ! this)"
  shows "\<exists>b. chain cs this h = (Inr this, h[this := b])
             \<and> value1 b = value1 (h ! this) @ concat (map spec_fragment_text cs)
             \<and> (\<forall>k. category_flag k b = (k \<in> fst ` set cs))"
  using assms(1)
proof (induction cs rule: rev_induct)
  case Nil
  have "chain [] this h = (Inr this, h[this := h ! this])" by simp
  with assms(3) show ?case by (intro exI[of _ "h ! this"]) simp
next
  case (snoc c cs)
  obtain k v where c: "c = (k, v)" by (cases c)
  note ord = respects_order_snoc[OF snoc.prems]
  from snoc.IH[OF ord(1)] obtain b where
    run: "chain cs this h = (Inr this, h[this := b])"
    and val: "value1 b = value1 (h ! this) @ concat (map spec_fragment_text cs)"
    and flags: "\<forall>k. category_flag k b = (k \<in> fst ` set cs)"
    by blast
  let ?h1 = "h[this := b]"
  have at: "?h1 ! this = b" using assms(2) by simp
  have live1: "this < length ?h1" using assms(2) by simp
  have fresh: "\<not> (once_only k \<and> category_flag k (?h1 ! this))"
    using ord(3) flags by (auto simp: c at)
  have order: "\<forall>k'. category_rank k < category_rank k' \<longrightarrow> \<not> category_flag k' (?h1 ! this)"
    using ord(2) flags by (fastforce simp: c at)
  from Builder_fragment_accepted[OF live1 fresh order, of v] obtain b' where
    step: "Builder_fragment k this v ?h1 = (Inr this, ?h1[this := b'])"
    and val': "value1 b' = value1 (?h1 ! this) @ spec_fragment_text (k, v)"
    and flags': "\<forall>k'. category_flag k' b' = (k' = k \<or> category_flag k' (?h1 ! this))"
    by blast
  have "chain (cs @ [c]) this h = (Inr this, h[this := b'])"
    by (simp add: chain_append run c step)
  moreover have "value1 b' = value1 (h ! this) @ concat (map spec_fragment_text (cs @ [c]))"
    using val' val by (simp add: at c)
  moreover have "\<forall>k'. category_flag k' b' = (k' \<in> fst ` set (cs @ [c]))"
    using flags' flags by (auto simp: at c)
  ultimately show ?case by blast
qed

lemma cssSelectorBuilder_fragment_new:
  "cssSelectorBuilder_fragment k v h =
     Builder_fragment k (length h) v (h @ [Builder_constructor None])"
  by (cases k)
    (simp_all add: cssSelectorBuilder_element_def cssSelectorBuilder_id_def
      cssSelectorBuilder_class_def cssSelectorBuilder_attr_def
      cssSelectorBuilder_pseudoClass_def cssSelectorBuilder_pseudoElement_def new_Builder_def)

lemma Builder_constructor_flags: "\<not> category_flag k (Builder_constructor arg)"
  by (cases k) (simp_all add: Builder_constructor_def)

lemma selector_expression_chain:
  "selector_expression c cs h =
     (case chain (c # cs) (length h) (h @ [Builder_constructor None]) of
        (Inl e, h2) \<Rightarrow> (Inl e, h2)
      | (Inr b1, h2) \<Rightarrow> (let (s, h3) = Builder_stringify b1 h2 in (Inr s, h3)))"
  by (cases c) (simp add: selector_expression_def cssSelectorBuilder_fragment_new split: prod.splits sum.splits)

text \<open>
  Whatever the calls are, a chain that returns has appended the text of every call,
  in order, and has set exactly the flags of the categories called: on a builder made
  by the facade, a flag is set if and only if a fragment of its category is present.
\<close>

lemma Builder_fragment_returned:
  assumes "this < length h" and "Builder_fragment k this v h = (Inr r, h')"
  shows "r = this \<and> length h' = length h
       \<and> value1 (h' ! this) = value1 (h ! this) @ spec_fragment_text (k, v)
       \<and> (\<forall>j. category_flag j (h' ! this) = (j = k \<or> category_flag j (h ! this)))"
proof -
  have flags: "\<forall>j. category_flag j (h' ! this) = (j = k \<or> category_flag j (h ! this))"
  proof
    fix j
    show "category_flag j (h' ! this) = (j = k \<or> category_flag j (h ! this))"
      using assms
      by (cases k; cases j)
        (auto simp: Builder_method_defs append_value1_Pair Let_def split: if_splits)
  qed
  have rest: "r = this \<and> length h' = length h
      \<and> value1 (h' ! this) = value1 (h ! this) @ spec_fragment_text (k, v)"
    using assms
    by (cases k) (auto simp: Builder_method_defs append_value1_Pair Let_def split: if_splits)
  from rest flags show ?thesis by simp
qed

lemma chain_returned:
  assumes "this < length h" and "chain cs this h = (Inr r, h')"
  shows "r = this \<and> length h' = length h
       \<and> value1 (h' ! this) = value1 (h ! this) @ concat (map spec_fragment_text cs)
       \<and> (\<forall>j. category_flag j (h' ! this) = (j \<in> fst ` set cs \<or> category_flag j (h ! this)))"
  using assms
proof (induction cs arbitrary: h)
  case Nil
  then show ?case by simp
next
  case (Cons c cs)
  obtain k v where c: "c = (k, v)" by (cases c)
  obtain res h1 where step: "Builder_fragment k this v h = (res, h1)"
    by (cases "Builder_fragment k this v h")
  from Cons.prems(2) step obtain r1 where res: "res = Inr r1"
    by (cases res) (simp_all add: c)
  from Builder_fragment_returned[OF Cons.prems(1) step[unfolded res]]
  have r1: "r1 = this" and len: "length h1 = length h"
    and val: "value1 (h1 ! this) = value1 (h ! this) @ spec_fragment_text (k, v)"
    and flags: "\<forall>j. category_flag j (h1 ! this) = (j = k \<or> category_flag j (h ! this))"
    by simp_all
  have live1: "this < length h1" using Cons.prems(1) len by simp
  have rest: "chain cs this h1 = (Inr r, h')"
    using Cons.prems(2) step res r1 by (simp add: c)
  from Cons.IH[OF live1 rest]
  have "r = this" and "length h' = length h1"
    and val': "value1 (h' ! this) = value1 (h1 ! this) @ concat (map spec_fragment_text cs)"
    and flags': "\<forall>j. category_flag j (h' ! this) = (j \<in> fst ` set cs \<or> category_flag j (h1 ! this))"
    by simp_all
  moreover have "value1 (h' ! this) = value1 (h ! this) @ concat (map spec_fragment_text (c # cs))"
    using val val' by (simp add: c)
  moreover have "\<forall>j. category_flag j (h' ! this) = (j \<in> fst ` set (c # cs) \<or> category_flag j (h ! this))"
    using flags flags' by (auto simp: c)
  ultimately show ?case using len by simp
qed

section \<open>The scenarios of the specification\<close>

lemma scenario_id_class_class:
  "fst (selector_expression (Id, ''main'') [(Class, ''container''), (Class, ''editable'')] [])
     = Inr ''#main.container.editable''"
  by (simp add: selector_expression_def cssSelectorBuilder_id_def new_Builder_def
      Builder_constructor_def Builder_id_def Builder_class_def Builder_stringify_def
      append_value1_Pair)

lemma scenario_second_id:
  "fst (selector_expression (Element, ''div'') [(Id, ''main''), (Id, ''second'')] [])
     = Inl (Error OneTimeInsideError)"
  by (simp add: selector_expression_def cssSelectorBuilder_element_def new_Builder_def
      Builder_constructor_def Builder_element_def Builder_id_def append_value1_Pair)

lemma scenario_element_after_class:
  "fst (selector_expression (Element, ''div'') [(Class, ''c''), (Element, ''div'')] [])
     = Inl (Error OneTimeInsideError)"
  by (simp add: selector_expression_def cssSelectorBuilder_element_def new_Builder_def
      Builder_constructor_def Builder_element_def Builder_class_def append_value1_Pair)

lemma scenario_id_after_class:
  "fst (selector_expression (Class, ''c'') [(Id, ''main'')] [])
     = Inl (Error FollowingOrderError)"
  by (simp add: selector_expression_def cssSelectorBuilder_class_def new_Builder_def
      Builder_constructor_def Builder_id_def Builder_class_def append_value1_Pair)

section \<open>Rendering a selector\<close>

text \<open>
  Claim C1. Take any sequence of fragment-method calls that respects the weak category
  order element, id, class, attr, pseudoClass, pseudoElement (class, attr and
  pseudoClass may repeat, the other three occur at most once), the first call being a
  facade entry call on any store. Then no call throws, and \<^verbatim>\<open>stringify()\<close>
  returns the concatenation, in call order, of the fragments' texts: the value verbatim
  for an element, \<^verbatim>\<open>#value\<close>, \<^verbatim>\<open>.value\<close>, \<^verbatim>\<open>[value]\<close>, \<^verbatim>\<open>:value\<close> and
  \<^verbatim>\<open>::value\<close> for the others, nothing in between.
\<close>

theorem stringify_concatenates_fragments:
  assumes "respects_order (c # cs)"
  shows "fst (selector_expression c cs h) = Inr (concat (map spec_fragment_text (c # cs)))"
proof -
  let ?h0 = "h @ [Builder_constructor None]"
  have live: "length h < length ?h0" by simp
  have new: "?h0 ! length h = Builder_constructor None" by simp
  have unflagged: "\<forall>k. \<not> category_flag k (?h0 ! length h)"
    by (simp only: new Builder_constructor_flags not_False_eq_True simp_thms)
  from chain_in_order[OF assms live unflagged] obtain b where
    run: "chain (c # cs) (length h) ?h0 = (Inr (length h), ?h0[length h := b])"
    and val: "value1 b = value1 (?h0 ! length h) @ concat (map spec_fragment_text (c # cs))"
    by blast
  have "value1 (?h0 ! length h) = []"
    by (simp only: new) (simp add: Builder_constructor_def)
  with val have "value1 b = concat (map spec_fragment_text (c # cs))" by simp
  then show ?thesis
    by (simp add: selector_expression_chain run Builder_stringify_def del: chain.simps)
qed

theorem stringify_concatenates_fragments_witness:
  "respects_order [(Element, ''a''), (Attr, ''href$=\".png\"''), (PseudoClass, ''focus'')]
   \<and> fst (selector_expression (Element, ''a'')
             [(Attr, ''href$=\".png\"''), (PseudoClass, ''focus'')] [])
       = Inr ''a[href$=\".png\"]:focus''"
proof -
  have ord: "respects_order [(Element, ''a''), (Attr, ''href$=\".png\"''), (PseudoClass, ''focus'')]"
    by (simp add: respects_order_def occurrences_def)
  from stringify_concatenates_fragments[OF ord, of "[]"] ord show ?thesis
    by simp
qed

section \<open>Errors\<close>

text \<open>
  Claim C2, as the specification states it: whenever \<^verbatim>\<open>element\<close>, \<^verbatim>\<open>id\<close> or
  \<^verbatim>\<open>pseudoElement\<close> throws because its category is already present, the error
  carries the message ``Element, id and pseudo-element should not occur more than one
  time inside the selector''. The source's constant \<^verbatim>\<open>OneTimeInsideError\<close> reads
  ``more then one time'': calling \<^verbatim>\<open>element\<close> twice throws an error whose message
  is the source's string and differs from the specification's.
\<close>

theorem duplicate_error_message_counterexample:
  "fst (selector_expression (Element, ''table'') [(Element, ''div'')] [])
     = Inl (Error ''Element, id and pseudo-element should not occur more then one time inside the selector'')
   \<and> fst (selector_expression (Element, ''table'') [(Element, ''div'')] [])
     \<noteq> Inl (Error spec_DuplicateError_message)"
  by (simp add: selector_expression_def cssSelectorBuilder_element_def new_Builder_def
      Builder_constructor_def Builder_element_def append_value1_Pair
      OneTimeInsideError_def spec_DuplicateError_message_def)

text \<open>
  Claim C2, amended: whenever \<^verbatim>\<open>element\<close>, \<^verbatim>\<open>id\<close> or \<^verbatim>\<open>pseudoElement\<close> is
  called on a builder in which that category is already present, the call throws an
  error carrying exactly the message ``Element, id and pseudo-element should not occur
  more then one time inside the selector''.
\<close>

theorem duplicate_error_message:
  assumes "this < length h" and "once_only k" and "category_flag k (h ! this)"
  shows "fst (Builder_fragment k this v h)
           = Inl (Error ''Element, id and pseudo-element should not occur more then one time inside the selector'')"
proof -
  have "Builder_fragment k this v h = (Inl (Error OneTimeInsideError), h)"
    using assms(2,3) by (rule Builder_fragment_duplicate)
  then show ?thesis
    by (simp add: OneTimeInsideError_def)
qed

theorem duplicate_error_message_witness:
  "(0::nat) < length [\<lparr>value1 = ''#id1'', elementExist = False, idExist = True,
        classExist = False, attrExist = False, pseudoClassExist = False,
        pseudoElementExist = False\<rparr>]
   \<and> once_only Id
   \<and> fst (Builder_fragment Id 0 ''id2''
        [\<lparr>value1 = ''#id1'', elementExist = False, idExist = True,
          classExist = False, attrExist = False, pseudoClassExist = False,
          pseudoElementExist = False\<rparr>])
      = Inl (Error ''Element, id and pseudo-element should not occur more then one time inside the selector'')"
  using duplicate_error_message[of 0 "[\<lparr>value1 = ''#id1'', elementExist = False, idExist = True,
        classExist = False, attrExist = False, pseudoClassExist = False,
        pseudoElementExist = False\<rparr>]" Id "''id2''"]
  by simp

text \<open>
  Claim C3. For every builder, calling \<^verbatim>\<open>element\<close>, \<^verbatim>\<open>id\<close> or
  \<^verbatim>\<open>pseudoElement\<close> when a fragment of that same category is already present
  throws the duplicate error and leaves the store as it was: \<^verbatim>\<open>stringify()\<close>
  returns the same string as before the call, and every flag of the builder has the
  value it had before.
\<close>

theorem duplicate_call_leaves_builder_unchanged:
  assumes "this < length h" and "once_only k" and "category_flag k (h ! this)"
  shows "fst (Builder_fragment k this v h) = Inl (Error OneTimeInsideError)
       \<and> snd (Builder_fragment k this v h) = h
       \<and> fst (Builder_stringify this (snd (Builder_fragment k this v h)))
           = fst (Builder_stringify this h)
       \<and> (\<forall>k'. category_flag k' (snd (Builder_fragment k this v h) ! this)
                 = category_flag k' (h ! this))"
proof -
  have "Builder_fragment k this v h = (Inl (Error OneTimeInsideError), h)"
    using assms(2,3) by (rule Builder_fragment_duplicate)
  then show ?thesis by simp
qed

theorem duplicate_call_leaves_builder_unchanged_witness:
  "(0::nat) < length [\<lparr>value1 = ''div#main'', elementExist = True, idExist = True,
        classExist = False, attrExist = False, pseudoClassExist = False,
        pseudoElementExist = False\<rparr>]
   \<and> once_only Id
   \<and> category_flag Id ([\<lparr>value1 = ''div#main'', elementExist = True, idExist = True,
        classExist = False, attrExist = False, pseudoClassExist = False,
        pseudoElementExist = False\<rparr>] ! 0)
   \<and> Builder_fragment Id 0 ''second'' [\<lparr>value1 = ''div#main'', elementExist = True, idExist = True,
        classExist = False, attrExist = False, pseudoClassExist = False,
        pseudoElementExist = False\<rparr>] = (Inl (Error OneTimeInsideError), [\<lparr>value1 = ''div#main'', elementExist = True, idExist = True,
        classExist = False, attrExist = False, pseudoClassExist = False,
        pseudoElementExist = False\<rparr>])
   \<and> fst (Builder_stringify 0 (snd (Builder_fragment Id 0 ''second'' [\<lparr>value1 = ''div#main'', elementExist = True, idExist = True,
        classExist = False, attrExist = False, pseudoClassExist = False,
        pseudoElementExist = False\<rparr>]))) = ''div#main''"
  using duplicate_call_leaves_builder_unchanged[of 0 "[\<lparr>value1 = ''div#main'', elementExist = True, idExist = True,
        classExist = False, attrExist = False, pseudoClassExist = False,
        pseudoElementExist = False\<rparr>]" Id "''second''"]
  by (simp add: prod_eq_iff Builder_stringify_def)

text \<open>
  Claim C4. For every builder, calling a fragment method while a fragment of a
  strictly later category is already present, and the method's own category is not a
  once-only category that is already present, throws an error carrying exactly the
  message ``Selector parts should be arranged in the following order: element, id,
  class, attribute, pseudo-class, pseudo-element'', and leaves the builder's text and
  flags (the whole store) unchanged.
\<close>

theorem out_of_order_call_raises:
  assumes "this < length h"
    and "category_rank k < category_rank k'" and "category_flag k' (h ! this)"
    and "\<not> (once_only k \<and> category_flag k (h ! this))"
  shows "fst (Builder_fragment k this v h)
           = Inl (Error ''Selector parts should be arranged in the following order: element, id, class, attribute, pseudo-class, pseudo-element'')
       \<and> snd (Builder_fragment k this v h) = h
       \<and> value1 (snd (Builder_fragment k this v h) ! this) = value1 (h ! this)
       \<and> (\<forall>j. category_flag j (snd (Builder_fragment k this v h) ! this)
                 = category_flag j (h ! this))"
proof -
  have "Builder_fragment k this v h = (Inl (Error FollowingOrderError), h)"
    using assms(2-4) by (rule Builder_fragment_out_of_order)
  then show ?thesis by (simp add: FollowingOrderError_def)
qed

theorem out_of_order_call_raises_witness:
  "(0::nat) < length [\<lparr>value1 = ''[href]'', elementExist = False, idExist = False,
        classExist = False, attrExist = True, pseudoClassExist = False,
        pseudoElementExist = False\<rparr>]
   \<and> category_rank Class < category_rank Attr
   \<and> category_flag Attr ([\<lparr>value1 = ''[href]'', elementExist = False, idExist = False,
        classExist = False, attrExist = True, pseudoClassExist = False,
        pseudoElementExist = False\<rparr>] ! 0)
   \<and> \<not> once_only Class
   \<and> Builder_fragment Class 0 ''c'' [\<lparr>value1 = ''[href]'', elementExist = False, idExist = False,
        classExist = False, attrExist = True, pseudoClassExist = False,
        pseudoElementExist = False\<rparr>]
       = (Inl (Error spec_OrderError_message), [\<lparr>value1 = ''[href]'', elementExist = False, idExist = False,
        classExist = False, attrExist = True, pseudoClassExist = False,
        pseudoElementExist = False\<rparr>])"
  using out_of_order_call_raises[of 0 "[\<lparr>value1 = ''[href]'', elementExist = False, idExist = False,
        classExist = False, attrExist = True, pseudoClassExist = False,
        pseudoElementExist = False\<rparr>]" Class Attr "''c''"]
  by (simp add: prod_eq_iff spec_OrderError_message_def)

text \<open>
  Claim C6. In \<^verbatim>\<open>element\<close>, \<^verbatim>\<open>id\<close> and \<^verbatim>\<open>pseudoElement\<close> the duplicate
  check comes before the order check: on every builder in which the method's own
  category is already present the call throws the duplicate error and not the order
  error, whatever other flags are set, so also when fragments of later categories are
  present.
\<close>

theorem duplicate_check_precedes_order_check:
  assumes "this < length h" and "once_only k" and "category_flag k (h ! this)"
  shows "fst (Builder_fragment k this v h) = Inl (Error OneTimeInsideError)
       \<and> fst (Builder_fragment k this v h) \<noteq> Inl (Error FollowingOrderError)"
proof -
  have "Builder_fragment k this v h = (Inl (Error OneTimeInsideError), h)"
    using assms(2,3) by (rule Builder_fragment_duplicate)
  moreover have "OneTimeInsideError \<noteq> FollowingOrderError"
    by (simp add: OneTimeInsideError_def FollowingOrderError_def)
  ultimately show ?thesis by simp
qed

theorem duplicate_check_precedes_order_check_witness:
  "(0::nat) < length [\<lparr>value1 = ''div.c'', elementExist = True, idExist = False,
        classExist = True, attrExist = False, pseudoClassExist = False,
        pseudoElementExist = False\<rparr>]
   \<and> once_only Element
   \<and> category_flag Element ([\<lparr>value1 = ''div.c'', elementExist = True, idExist = False,
        classExist = True, attrExist = False, pseudoClassExist = False,
        pseudoElementExist = False\<rparr>] ! 0)
   \<and> category_flag Class ([\<lparr>value1 = ''div.c'', elementExist = True, idExist = False,
        classExist = True, attrExist = False, pseudoClassExist = False,
        pseudoElementExist = False\<rparr>] ! 0)
   \<and> fst (Builder_fragment Element 0 ''div'' [\<lparr>value1 = ''div.c'', elementExist = True, idExist = False,
        classExist = True, attrExist = False, pseudoClassExist = False,
        pseudoElementExist = False\<rparr>]) = Inl (Error OneTimeInsideError)
   \<and> fst (Builder_fragment Element 0 ''div'' [\<lparr>value1 = ''div.c'', elementExist = True, idExist = False,
        classExist = True, attrExist = False, pseudoClassExist = False,
        pseudoElementExist = False\<rparr>]) \<noteq> Inl (Error FollowingOrderError)"
  using duplicate_check_precedes_order_check[of 0 "[\<lparr>value1 = ''div.c'', elementExist = True, idExist = False,
        classExist = True, attrExist = False, pseudoClassExist = False,
        pseudoElementExist = False\<rparr>]" Element "''div''"]
  by (simp add: OneTimeInsideError_def FollowingOrderError_def)

section \<open>Reading a builder\<close>

text \<open>
  Claim C7. \<^verbatim>\<open>stringify()\<close> is a pure read: on every builder and every store, a
  call leaves the store (text and flags of every object) as it was, and any number of
  calls in a row return the same string each time.
\<close>

theorem stringify_is_pure_read:
  "snd (Builder_stringify this h) = h
   \<and> stringify_times n this h = (replicate n (fst (Builder_stringify this h)), h)"
proof
  show "snd (Builder_stringify this h) = h"
    by (simp add: Builder_stringify_def)
  show "stringify_times n this h = (replicate n (fst (Builder_stringify this h)), h)"
    by (induction n) (simp_all add: Builder_stringify_def)
qed

theorem stringify_is_pure_read_witness:
  "stringify_times 3 0 [\<lparr>value1 = ''div.c'', elementExist = True, idExist = False,
        classExist = True, attrExist = False, pseudoClassExist = False,
        pseudoElementExist = False\<rparr>] = ([''div.c'', ''div.c'', ''div.c''], [\<lparr>value1 = ''div.c'', elementExist = True, idExist = False,
        classExist = True, attrExist = False, pseudoClassExist = False,
        pseudoElementExist = False\<rparr>])"
  using stringify_is_pure_read[of 0 "[\<lparr>value1 = ''div.c'', elementExist = True, idExist = False,
        classExist = True, attrExist = False, pseudoClassExist = False,
        pseudoElementExist = False\<rparr>]" 3]
  by (simp add: Builder_stringify_def numeral_3_eq_3)

section \<open>Combining selectors\<close>

lemma pure_read_here: "pure_read s h \<Longrightarrow> s h = (fst (s h), h)"
  using append_Nil2[of h] by (auto simp: pure_read_def dest: spec[of _ "[]"])

lemma pure_read_later: "pure_read s h \<Longrightarrow> s (h @ e) = (fst (s h), h @ e)"
  by (simp add: pure_read_def)

lemma pure_read_extend: "pure_read s h \<Longrightarrow> pure_read s (h @ e)"
  by (simp add: pure_read_def)

lemma pure_read_Builder_stringify: "r < length h \<Longrightarrow> pure_read (Builder_stringify r) h"
  by (simp add: pure_read_def Builder_stringify_def nth_append)

lemma pure_read_constant: "pure_read (Pair s) h"
  by (simp add: pure_read_def)

lemma pure_read_selector_stringify:
  "pure_read (selector_stringify (Duck s)) h"
  "r < length h \<Longrightarrow> pure_read (selector_stringify (BuilderRef r)) h"
  by (simp_all add: pure_read_def Builder_stringify_def nth_append)

lemma append_value1_read:
  assumes "s h = (t, h)"
  shows "append_value1 this s h = h[this := (h ! this)\<lparr>value1 := value1 (h ! this) @ t\<rparr>]"
  using assms by (simp add: append_value1_def)

lemma Builder_combine_text:
  assumes live: "this < length h"
    and ta: "a h = (ta, h)"
    and tb: "\<And>y. b (h[this := y]) = (tb, h[this := y])"
  shows "Builder_combine this a c b h =
           (Inr this, h[this := (h ! this)\<lparr>value1 := value1 (h ! this) @ ta @ '' '' @ c @ '' '' @ tb\<rparr>])"
proof -
  define b0 where "b0 = h ! this"
  define h1 where "h1 = append_value1 this a h"
  define h2 where "h2 = append_value1 this (Pair '' '') h1"
  define h3 where "h3 = append_value1 this (Pair c) h2"
  define h4 where "h4 = append_value1 this (Pair '' '') h3"
  define h5 where "h5 = append_value1 this b h4"
  have e1: "h1 = h[this := b0\<lparr>value1 := value1 b0 @ ta\<rparr>]"
    unfolding h1_def b0_def using ta by (rule append_value1_read)
  have e2: "h2 = h[this := b0\<lparr>value1 := value1 b0 @ ta @ '' ''\<rparr>]"
    unfolding h2_def append_value1_Pair e1 using live by simp
  have e3: "h3 = h[this := b0\<lparr>value1 := value1 b0 @ ta @ '' '' @ c\<rparr>]"
    unfolding h3_def append_value1_Pair e2 using live by simp
  have e4: "h4 = h[this := b0\<lparr>value1 := value1 b0 @ ta @ '' '' @ c @ '' ''\<rparr>]"
    unfolding h4_def append_value1_Pair e3 using live by simp
  have "b h4 = (tb, h4)"
    unfolding e4 by (rule tb)
  then have "h5 = h4[this := (h4 ! this)\<lparr>value1 := value1 (h4 ! this) @ tb\<rparr>]"
    unfolding h5_def by (rule append_value1_read)
  then have e5: "h5 = h[this := b0\<lparr>value1 := value1 b0 @ ta @ '' '' @ c @ '' '' @ tb\<rparr>]"
    unfolding e4 using live by simp
  have "Builder_combine this a c b h = (Inr this, h5)"
    by (simp only: Builder_combine_def Let_def h1_def h2_def h3_def h4_def h5_def)
  then show ?thesis
    by (simp only: e5 b0_def)
qed

lemma cssSelectorBuilder_combine_result:
  assumes "pure_read a h" and "pure_read b h"
  shows "cssSelectorBuilder_combine a c b h =
           (Inr (length h),
            h @ [(Builder_constructor None)
                   \<lparr>value1 := fst (a h) @ '' '' @ c @ '' '' @ fst (b h)\<rparr>])"
proof -
  let ?h0 = "h @ [Builder_constructor None]"
  have live: "length h < length ?h0" by simp
  have empty: "value1 (?h0 ! length h) = []"
    by (simp add: Builder_constructor_def)
  have a: "a ?h0 = (fst (a h), ?h0)"
    using assms(1) by (rule pure_read_later)
  have b: "b (?h0[length h := y]) = (fst (b h), ?h0[length h := y])" for y
    using pure_read_later[OF assms(2), of "[y]"] by simp
  have "cssSelectorBuilder_combine a c b h = Builder_combine (length h) a c b ?h0"
    by (simp add: cssSelectorBuilder_combine_def new_Builder_def)
  also have "\<dots> = (Inr (length h), ?h0[length h := (?h0 ! length h)
      \<lparr>value1 := value1 (?h0 ! length h) @ fst (a h) @ '' '' @ c @ '' '' @ fst (b h)\<rparr>])"
    using live a b by (rule Builder_combine_text)
  also have "\<dots> = (Inr (length h), h @ [(Builder_constructor None)
      \<lparr>value1 := fst (a h) @ '' '' @ c @ '' '' @ fst (b h)\<rparr>])"
    by (simp add: empty[simplified])
  finally show ?thesis .
qed

lemma spec_combination_text_extend:
  assumes "\<forall>s \<in> set (leaves t). pure_read s h"
  shows "spec_combination_text t (h @ e) = spec_combination_text t h"
  using assms
proof (induction t)
  case (Leaf s)
  then have "pure_read s h" by simp
  then have "s (h @ e) = (fst (s h), h @ e)" by (rule pure_read_later)
  then show ?case by simp
next
  case (Combine l c r)
  then show ?case by simp
qed

lemma combine_expression_text:
  assumes "\<forall>s \<in> set (leaves t). pure_read s h"
  shows "\<exists>s e. combine_expression t h = (Inr s, h @ e)
               \<and> pure_read s (h @ e)
               \<and> fst (s (h @ e)) = spec_combination_text t h"
  using assms
proof (induction t arbitrary: h)
  case (Leaf s)
  then have p: "pure_read s h" by simp
  have "combine_expression (Leaf s) h = (Inr s, h @ [])" by simp
  moreover have "pure_read s (h @ [])" using p by simp
  moreover have "fst (s (h @ [])) = spec_combination_text (Leaf s) h" by simp
  ultimately show ?case by blast
next
  case (Combine l c r)
  from Combine.prems have ll: "\<forall>s \<in> set (leaves l). pure_read s h"
    and lr: "\<forall>s \<in> set (leaves r). pure_read s h"
    by simp_all
  from Combine.IH(1)[OF ll] obtain a e1 where
    l: "combine_expression l h = (Inr a, h @ e1)"
    and pa: "pure_read a (h @ e1)"
    and ta: "fst (a (h @ e1)) = spec_combination_text l h"
    by blast
  define h1 where "h1 = h @ e1"
  from lr have lr1: "\<forall>s \<in> set (leaves r). pure_read s h1"
    unfolding h1_def by (blast intro: pure_read_extend)
  from Combine.IH(2)[OF lr1] obtain b e2 where
    r: "combine_expression r h1 = (Inr b, h1 @ e2)"
    and pb: "pure_read b (h1 @ e2)"
    and tb: "fst (b (h1 @ e2)) = spec_combination_text r h1"
    by blast
  define h2 where "h2 = h1 @ e2"
  have pa2: "pure_read a h2"
    unfolding h2_def using pa[folded h1_def] by (rule pure_read_extend)
  have "a h2 = (fst (a h1), h2)"
    unfolding h2_def using pa[folded h1_def] by (rule pure_read_later)
  then have ta2: "fst (a h2) = spec_combination_text l h"
    using ta by (simp add: h1_def)
  have "spec_combination_text r h1 = spec_combination_text r h"
    unfolding h1_def using lr by (rule spec_combination_text_extend)
  then have tb2: "fst (b h2) = spec_combination_text r h"
    using tb by (simp add: h2_def)
  define new where "new = (Builder_constructor None)
      \<lparr>value1 := fst (a h2) @ '' '' @ c @ '' '' @ fst (b h2)\<rparr>"
  have comb: "cssSelectorBuilder_combine a c b h2 = (Inr (length h2), h2 @ [new])"
    unfolding new_def using pa2 pb[folded h2_def] by (rule cssSelectorBuilder_combine_result)
  have run: "combine_expression (Combine l c r) h = (Inr (Builder_stringify (length h2)), h2 @ [new])"
    using l r comb by (simp add: h1_def h2_def)
  have ext: "h2 @ [new] = h @ (e1 @ e2 @ [new])"
    by (simp add: h1_def h2_def)
  have pure: "pure_read (Builder_stringify (length h2)) (h2 @ [new])"
    by (rule pure_read_Builder_stringify) simp
  have "value1 new = spec_combination_text (Combine l c r) h"
    by (simp add: new_def ta2 tb2)
  then have "fst (Builder_stringify (length h2) (h2 @ [new])) = spec_combination_text (Combine l c r) h"
    by (simp add: Builder_stringify_def)
  with run pure show ?case
    unfolding ext by blast
qed

text \<open>The method \<^verbatim>\<open>combine\<close> appends to whatever text its receiver holds; only
  on the empty builder the facade creates is the result the combined text alone.\<close>

lemma combine_on_existing_builder_appends:
  "Builder_combine 0 (Pair ''a'') ''+'' (Pair ''b'')
       [\<lparr>value1 = ''div'', elementExist = True, idExist = False, classExist = False,
          attrExist = False, pseudoClassExist = False, pseudoElementExist = False\<rparr>]
     = (Inr 0,
        [\<lparr>value1 = ''diva + b'', elementExist = True, idExist = False, classExist = False,
           attrExist = False, pseudoClassExist = False, pseudoElementExist = False\<rparr>])"
  by (simp add: Builder_combine_def append_value1_Pair)

text \<open>
  Claim C5, as the specification states it: for all selectors \<open>a\<close> and \<open>b\<close>, any
  objects exposing \<^verbatim>\<open>stringify()\<close>, and any combinator \<open>c\<close>,
  \<^verbatim>\<open>combine(a, c, b).stringify()\<close> equals
  \<^verbatim>\<open>a.stringify() + ' ' + c + ' ' + b.stringify()\<close>. The code accepts every such
  object, also one whose \<^verbatim>\<open>stringify()\<close> changes state. Let \<open>n\<close> be the builder
  \<^verbatim>\<open>cssSelectorBuilder.element('')\<close> and \<open>d\<close> the counting object on \<open>n\<close>: the
  text of \<^verbatim>\<open>combine(d, '+', d)\<close> is \<^verbatim>\<open>dI + dII\<close>, the next call of
  \<^verbatim>\<open>d.stringify()\<close> returns \<^verbatim>\<open>dIII\<close>, and the equation is false.
\<close>

theorem combine_equation_counterexample:
  "fst (Builder_stringify 1 (snd (cssSelectorBuilder_combine
          (counting_stringify 0) ''+'' (counting_stringify 0)
          (snd (cssSelectorBuilder_element [] [])))))
     = ''dI + dII''
   \<and> fst (counting_stringify 0 (snd (cssSelectorBuilder_combine
          (counting_stringify 0) ''+'' (counting_stringify 0)
          (snd (cssSelectorBuilder_element [] [])))))
     = ''dIII''
   \<and> \<not> spec_combine_equation (counting_stringify 0) ''+'' (counting_stringify 0)
          (snd (cssSelectorBuilder_element [] []))"
  by (simp add: spec_combine_equation_def cssSelectorBuilder_combine_def new_Builder_def
      cssSelectorBuilder_element_def Builder_element_def append_value1_Pair
      Builder_combine_def append_value1_def counting_stringify_def Builder_stringify_def
      Builder_constructor_def Let_def)

text \<open>
  Claim C5, amended: for all selectors \<open>a\<close> and \<open>b\<close> whose \<^verbatim>\<open>stringify()\<close> is a
  read of objects that exist before the call (every builder that exists, and every
  other object whose \<^verbatim>\<open>stringify()\<close> returns its string without changing
  anything) and any combinator string \<open>c\<close>, the facade's \<^verbatim>\<open>combine(a, c, b)\<close>
  returns a builder whose \<^verbatim>\<open>stringify()\<close> is
  \<^verbatim>\<open>a.stringify() + ' ' + c + ' ' + b.stringify()\<close>, the two arguments being read
  before or after the call. The equation holds recursively: every nested
  \<^verbatim>\<open>combine\<close> expression over such selectors returns a builder whose text is the
  correspondingly nested string.
\<close>

theorem combine_joins_with_combinator:
  assumes "pure_read a h" and "pure_read b h"
    and "list_all (\<lambda>s. pure_read s h) (leaves t)"
  shows "(\<exists>x h'. cssSelectorBuilder_combine a c b h = (Inr x, h')
            \<and> fst (Builder_stringify x h') = fst (a h) @ '' '' @ c @ '' '' @ fst (b h)
            \<and> fst (Builder_stringify x h') = fst (a h') @ '' '' @ c @ '' '' @ fst (b h'))
       \<and> spec_combine_equation a c b h
       \<and> (\<exists>s h'. combine_expression t h = (Inr s, h')
            \<and> fst (s h') = spec_combination_text t h)"
proof (intro conjI)
  define new where "new = (Builder_constructor None)
      \<lparr>value1 := fst (a h) @ '' '' @ c @ '' '' @ fst (b h)\<rparr>"
  have run: "cssSelectorBuilder_combine a c b h = (Inr (length h), h @ [new])"
    unfolding new_def using assms(1,2) by (rule cssSelectorBuilder_combine_result)
  have result: "fst (Builder_stringify (length h) (h @ [new]))
      = fst (a h) @ '' '' @ c @ '' '' @ fst (b h)"
    by (simp add: Builder_stringify_def new_def)
  have a: "a (h @ [new]) = (fst (a h), h @ [new])"
    using assms(1) by (rule pure_read_later)
  have b: "b (h @ [new]) = (fst (b h), h @ [new])"
    using assms(2) by (rule pure_read_later)
  have a': "fst (a (h @ [new])) = fst (a h)" by (simp only: a fst_conv)
  have b': "fst (b (h @ [new])) = fst (b h)" by (simp only: b fst_conv)
  show "\<exists>x h'. cssSelectorBuilder_combine a c b h = (Inr x, h')
      \<and> fst (Builder_stringify x h') = fst (a h) @ '' '' @ c @ '' '' @ fst (b h)
      \<and> fst (Builder_stringify x h') = fst (a h') @ '' '' @ c @ '' '' @ fst (b h')"
    by (intro exI[of _ "length h"] exI[of _ "h @ [new]"]) (simp only: run result a' b' simp_thms)
  have read: "Builder_stringify (length h) (h @ [new])
      = (fst (a h) @ '' '' @ c @ '' '' @ fst (b h), h @ [new])"
    by (simp add: Builder_stringify_def new_def)
  show "spec_combine_equation a c b h"
    unfolding spec_combine_equation_def by (simp add: run read a b)
next
  from assms(3) have "\<forall>s \<in> set (leaves t). pure_read s h"
    by (simp add: list_all_iff)
  from combine_expression_text[OF this]
  show "\<exists>s h'. combine_expression t h = (Inr s, h')
      \<and> fst (s h') = spec_combination_text t h"
    by blast
qed

theorem combine_joins_with_combinator_witness:
  "pure_read (Builder_stringify 0) (map (Builder_constructor \<circ> Some)
       [''div#main.container.draggable'', ''table#data'', ''tr:nth-of-type(even)'', ''td:nth-of-type(even)''])
   \<and> pure_read (Pair ''p'') (map (Builder_constructor \<circ> Some)
       [''div#main.container.draggable'', ''table#data'', ''tr:nth-of-type(even)'', ''td:nth-of-type(even)''])
   \<and> list_all (\<lambda>s. pure_read s (map (Builder_constructor \<circ> Some)
       [''div#main.container.draggable'', ''table#data'', ''tr:nth-of-type(even)'', ''td:nth-of-type(even)'']))
       (leaves (Combine (Leaf (Builder_stringify 0)) ''+''
          (Combine (Leaf (Builder_stringify 1)) ''~''
             (Combine (Leaf (Builder_stringify 2)) '' '' (Leaf (Builder_stringify 3))))))
   \<and> (case cssSelectorBuilder_combine (Builder_stringify 0) ''>'' (Pair ''p'') (map (Builder_constructor \<circ> Some)
       [''div#main.container.draggable'', ''table#data'', ''tr:nth-of-type(even)'', ''td:nth-of-type(even)'']) of
         (Inr x, h') \<Rightarrow> fst (Builder_stringify x h') = ''div#main.container.draggable > p''
       | (Inl e, h') \<Rightarrow> False)
   \<and> spec_combine_equation (Builder_stringify 0) ''>'' (Pair ''p'') (map (Builder_constructor \<circ> Some)
       [''div#main.container.draggable'', ''table#data'', ''tr:nth-of-type(even)'', ''td:nth-of-type(even)''])
   \<and> (case combine_expression (Combine (Leaf (Builder_stringify 0)) ''+''
          (Combine (Leaf (Builder_stringify 1)) ''~''
             (Combine (Leaf (Builder_stringify 2)) '' '' (Leaf (Builder_stringify 3)))))
          (map (Builder_constructor \<circ> Some)
       [''div#main.container.draggable'', ''table#data'', ''tr:nth-of-type(even)'', ''td:nth-of-type(even)'']) of
         (Inr s, h') \<Rightarrow> fst (s h')
            = ''div#main.container.draggable + table#data ~ tr:nth-of-type(even)   td:nth-of-type(even)''
       | (Inl e, h') \<Rightarrow> False)"
proof -
  define H where "H = (map (Builder_constructor \<circ> Some)
       [''div#main.container.draggable'', ''table#data'', ''tr:nth-of-type(even)'', ''td:nth-of-type(even)''])"
  define T where "T = (Combine (Leaf (Builder_stringify 0)) ''+''
          (Combine (Leaf (Builder_stringify 1)) ''~''
             (Combine (Leaf (Builder_stringify 2)) '' '' (Leaf (Builder_stringify 3)))))"
  have len: "length H = 4" by (simp add: H_def)
  have la: "pure_read (Builder_stringify 0) H"
    by (rule pure_read_Builder_stringify) (simp add: len)
  have lb: "pure_read (Pair ''p'') H" by (rule pure_read_constant)
  have lt: "list_all (\<lambda>s. pure_read s H) (leaves T)"
    by (simp add: T_def pure_read_Builder_stringify len)
  have ta: "fst (Builder_stringify 0 H) = ''div#main.container.draggable''"
    by (simp add: H_def Builder_stringify_def Builder_constructor_def)
  have tt: "spec_combination_text T H
      = ''div#main.container.draggable + table#data ~ tr:nth-of-type(even)   td:nth-of-type(even)''"
    by (simp add: H_def T_def Builder_stringify_def Builder_constructor_def)
  from combine_joins_with_combinator[OF la lb lt, of "''>''"]
  obtain x h1 s h2 where
    "cssSelectorBuilder_combine (Builder_stringify 0) ''>'' (Pair ''p'') H = (Inr x, h1)"
    "fst (Builder_stringify x h1) = fst (Builder_stringify 0 H) @ '' '' @ ''>'' @ '' ''
        @ fst (Pair ''p'' H)"
    "combine_expression T H = (Inr s, h2)"
    "fst (s h2) = spec_combination_text T H"
    and c3: "spec_combine_equation (Builder_stringify 0) ''>'' (Pair ''p'') H"
    by blast
  then have c1: "(case cssSelectorBuilder_combine (Builder_stringify 0) ''>'' (Pair ''p'') H of
         (Inr x, h') \<Rightarrow> fst (Builder_stringify x h') = ''div#main.container.draggable > p''
       | (Inl e, h') \<Rightarrow> False)"
    and c2: "(case combine_expression T H of
         (Inr s, h') \<Rightarrow> fst (s h')
            = ''div#main.container.draggable + table#data ~ tr:nth-of-type(even)   td:nth-of-type(even)''
       | (Inl e, h') \<Rightarrow> False)"
    by (simp_all add: ta tt del: combine_expression.simps)
  show ?thesis
    unfolding H_def[symmetric] T_def[symmetric]
    by (intro conjI la lb lt c1 c3 c2)
qed

section \<open>Independence of builders\<close>

lemma Builder_fragment_receiver:
  "\<exists>b. snd (Builder_fragment k this v h) = h[this := b]"
proof -
  have keep: "\<exists>b. h = h[this := b]"
    by (rule exI[of _ "h ! this"]) simp
  show ?thesis
    by (cases k) (auto simp: Builder_method_defs append_value1_Pair Let_def keep)
qed

lemma Builder_fragment_returns_this:
  "fst (Builder_fragment k this v h) = Inr b \<Longrightarrow> b = this"
  by (cases k) (auto simp: Builder_method_defs Let_def split: if_splits)

lemma chain_receiver:
  "(\<exists>b. snd (chain cs this h) = h[this := b])
   \<and> (\<forall>r. fst (chain cs this h) = Inr r \<longrightarrow> r = this)"
proof (induction cs arbitrary: h)
  case Nil
  show ?case
    by (intro conjI exI[of _ "h ! this"]) simp_all
next
  case (Cons c cs)
  obtain k v where c: "c = (k, v)" by (cases c)
  obtain res h1 where step: "Builder_fragment k this v h = (res, h1)"
    by (cases "Builder_fragment k this v h")
  from Builder_fragment_receiver[of k this v h] step obtain b1 where h1: "h1 = h[this := b1]"
    by auto
  show ?case
  proof (cases res)
    case (Inl e)
    with step h1 show ?thesis by (auto simp: c)
  next
    case (Inr r)
    with step Builder_fragment_returns_this[of k this v h r] have r: "r = this" by simp
    from Cons.IH[of h1] obtain b2 where
      rest: "snd (chain cs this h1) = h1[this := b2]"
      and ret: "\<forall>r. fst (chain cs this h1) = Inr r \<longrightarrow> r = this"
      by blast
    have "chain (c # cs) this h = chain cs this h1"
      using step Inr r by (simp add: c)
    moreover have "h1[this := b2] = h[this := b2]"
      by (simp add: h1)
    ultimately show ?thesis using rest ret by auto
  qed
qed

lemma chain_leaves_others:
  assumes "r \<noteq> this"
  shows "snd (chain cs this h) ! r = h ! r"
proof -
  from chain_receiver[of cs this h] obtain b where "snd (chain cs this h) = h[this := b]"
    by blast
  with assms show ?thesis by simp
qed

lemma append_value1_selector:
  "append_value1 this (selector_stringify s) h =
     h[this := (h ! this)\<lparr>value1 := value1 (h ! this) @ fst (selector_stringify s h)\<rparr>]"
  by (cases s) (simp_all add: append_value1_def Builder_stringify_def)

lemma Builder_combine_receiver:
  "\<exists>b. Builder_combine this (selector_stringify s1) c (selector_stringify s2) h
         = (Inr this, h[this := b])"
  apply (simp add: Builder_combine_def append_value1_selector append_value1_Pair Let_def)
  apply (rule exI, rule refl)
  done

lemma cssSelectorBuilder_call_fresh:
  "\<exists>b. cssSelectorBuilder_call e h = (Inr (length h), h @ [b])"
proof (cases e)
  case (Fragment k v)
  let ?h0 = "h @ [Builder_constructor None]"
  have live: "length h < length ?h0" by simp
  have fresh: "\<not> (once_only k \<and> category_flag k (?h0 ! length h))"
    by (simp add: Builder_constructor_flags)
  have order: "\<forall>k'. category_rank k < category_rank k' \<longrightarrow> \<not> category_flag k' (?h0 ! length h)"
    by (simp add: Builder_constructor_flags)
  from Builder_fragment_accepted[OF live fresh order, of v] obtain b where
    "Builder_fragment k (length h) v ?h0 = (Inr (length h), ?h0[length h := b])"
    by blast
  then have "cssSelectorBuilder_call e h = (Inr (length h), h @ [b])"
    by (simp add: Fragment cssSelectorBuilder_fragment_new)
  then show ?thesis by blast
next
  case (Combination a c b)
  let ?h0 = "h @ [Builder_constructor None]"
  from Builder_combine_receiver[of "length h" a c b ?h0] obtain x where
    "Builder_combine (length h) (selector_stringify a) c (selector_stringify b) ?h0
       = (Inr (length h), ?h0[length h := x])"
    by blast
  then have "cssSelectorBuilder_call e h = (Inr (length h), h @ [x])"
    by (simp add: Combination cssSelectorBuilder_combine_def new_Builder_def)
  then show ?thesis by blast
qed

text \<open>
  Claim C8. Every entry point of the facade (the six fragment entries and
  \<^verbatim>\<open>combine\<close>) returns a builder that did not exist before the call and leaves
  every existing object as it was. Hence two builders obtained from separate facade
  calls (the second made in any later store) are distinct objects, and whatever chain
  of fragment methods is applied to one of them leaves the other's text and flags, and
  so the result of its \<^verbatim>\<open>stringify()\<close>, unchanged.
\<close>

theorem facade_builders_are_independent:
  assumes first: "cssSelectorBuilder_call e1 h = (r1, h1)"
    and later: "length h1 \<le> length g"
    and second: "cssSelectorBuilder_call e2 g = (r2, g2)"
  shows "\<exists>b1 b2. r1 = Inr b1 \<and> r2 = Inr b2 \<and> b1 \<noteq> b2
           \<and> b1 = length h \<and> length h1 = Suc (length h) \<and> (\<forall>a < length h. h1 ! a = h ! a)
           \<and> b2 = length g \<and> length g2 = Suc (length g) \<and> (\<forall>a < length g. g2 ! a = g ! a)
           \<and> (\<forall>cs s. snd (chain cs b1 s) ! b2 = s ! b2
                  \<and> fst (Builder_stringify b2 (snd (chain cs b1 s))) = fst (Builder_stringify b2 s))
           \<and> (\<forall>cs s. snd (chain cs b2 s) ! b1 = s ! b1
                  \<and> fst (Builder_stringify b1 (snd (chain cs b2 s))) = fst (Builder_stringify b1 s))"
proof -
  from cssSelectorBuilder_call_fresh[of e1 h] first obtain x where
    r1: "r1 = Inr (length h)" and h1: "h1 = h @ [x]"
    by auto
  from cssSelectorBuilder_call_fresh[of e2 g] second obtain y where
    r2: "r2 = Inr (length g)" and g2: "g2 = g @ [y]"
    by auto
  from later h1 have distinct: "length h \<noteq> length g" by simp
  have frame1: "length h1 = Suc (length h) \<and> (\<forall>a < length h. h1 ! a = h ! a)"
    by (simp add: h1 nth_append)
  have frame2: "length g2 = Suc (length g) \<and> (\<forall>a < length g. g2 ! a = g ! a)"
    by (simp add: g2 nth_append)
  have indep1: "\<forall>cs s. snd (chain cs (length h) s) ! length g = s ! length g
      \<and> fst (Builder_stringify (length g) (snd (chain cs (length h) s)))
          = fst (Builder_stringify (length g) s)"
    using distinct by (simp add: chain_leaves_others Builder_stringify_def)
  have indep2: "\<forall>cs s. snd (chain cs (length g) s) ! length h = s ! length h
      \<and> fst (Builder_stringify (length h) (snd (chain cs (length g) s)))
          = fst (Builder_stringify (length h) s)"
    using distinct by (simp add: chain_leaves_others Builder_stringify_def)
  from r1 r2 distinct frame1 frame2 indep1 indep2 show ?thesis
    by (intro exI[of _ "length h"] exI[of _ "length g"]) simp
qed


theorem facade_builders_are_independent_witness:
  "cssSelectorBuilder_call (Fragment Element ''div'') [] = (Inr 0, [\<lparr>value1 = ''div'', elementExist = True, idExist = False,
        classExist = False, attrExist = False, pseudoClassExist = False,
        pseudoElementExist = False\<rparr>])
   \<and> length [\<lparr>value1 = ''div'', elementExist = True, idExist = False,
        classExist = False, attrExist = False, pseudoClassExist = False,
        pseudoElementExist = False\<rparr>] \<le> length [\<lparr>value1 = ''div'', elementExist = True, idExist = False,
        classExist = False, attrExist = False, pseudoClassExist = False,
        pseudoElementExist = False\<rparr>]
   \<and> cssSelectorBuilder_call (Fragment Id ''main'') [\<lparr>value1 = ''div'', elementExist = True, idExist = False,
        classExist = False, attrExist = False, pseudoClassExist = False,
        pseudoElementExist = False\<rparr>] = (Inr 1, [\<lparr>value1 = ''div'', elementExist = True, idExist = False,
        classExist = False, attrExist = False, pseudoClassExist = False,
        pseudoElementExist = False\<rparr>, \<lparr>value1 = ''#main'', elementExist = False, idExist = True,
        classExist = False, attrExist = False, pseudoClassExist = False,
        pseudoElementExist = False\<rparr>])
   \<and> snd (chain [(Class, ''c'')] 0 [\<lparr>value1 = ''div'', elementExist = True, idExist = False,
        classExist = False, attrExist = False, pseudoClassExist = False,
        pseudoElementExist = False\<rparr>, \<lparr>value1 = ''#main'', elementExist = False, idExist = True,
        classExist = False, attrExist = False, pseudoClassExist = False,
        pseudoElementExist = False\<rparr>]) ! 1 = \<lparr>value1 = ''#main'', elementExist = False, idExist = True,
        classExist = False, attrExist = False, pseudoClassExist = False,
        pseudoElementExist = False\<rparr>
   \<and> fst (Builder_stringify 1 (snd (chain [(Class, ''c'')] 0 [\<lparr>value1 = ''div'', elementExist = True, idExist = False,
        classExist = False, attrExist = False, pseudoClassExist = False,
        pseudoElementExist = False\<rparr>, \<lparr>value1 = ''#main'', elementExist = False, idExist = True,
        classExist = False, attrExist = False, pseudoClassExist = False,
        pseudoElementExist = False\<rparr>]))) = ''#main''
   \<and> snd (chain [(Class, ''c'')] 1 [\<lparr>value1 = ''div'', elementExist = True, idExist = False,
        classExist = False, attrExist = False, pseudoClassExist = False,
        pseudoElementExist = False\<rparr>, \<lparr>value1 = ''#main'', elementExist = False, idExist = True,
        classExist = False, attrExist = False, pseudoClassExist = False,
        pseudoElementExist = False\<rparr>]) ! 0 = \<lparr>value1 = ''div'', elementExist = True, idExist = False,
        classExist = False, attrExist = False, pseudoClassExist = False,
        pseudoElementExist = False\<rparr>"
proof -
  define D where "D = \<lparr>value1 = ''div'', elementExist = True, idExist = False,
        classExist = False, attrExist = False, pseudoClassExist = False,
        pseudoElementExist = False\<rparr>"
  define M where "M = \<lparr>value1 = ''#main'', elementExist = False, idExist = True,
        classExist = False, attrExist = False, pseudoClassExist = False,
        pseudoElementExist = False\<rparr>"
  have first: "cssSelectorBuilder_call (Fragment Element ''div'') [] = (Inr 0, [D])"
    by (simp add: D_def cssSelectorBuilder_element_def new_Builder_def Builder_constructor_def
        Builder_element_def append_value1_Pair)
  have later: "length [D] \<le> length [D]" by simp
  have second: "cssSelectorBuilder_call (Fragment Id ''main'') [D] = (Inr 1, [D, M])"
    by (simp add: M_def cssSelectorBuilder_id_def new_Builder_def Builder_constructor_def
        Builder_id_def append_value1_Pair)
  from facade_builders_are_independent[OF first later second] obtain b1 b2 where
    b: "Inr 0 = (Inr b1 :: error + ref)" "Inr 1 = (Inr b2 :: error + ref)"
    and i1: "\<forall>cs s. snd (chain cs b1 s) ! b2 = s ! b2
                  \<and> fst (Builder_stringify b2 (snd (chain cs b1 s))) = fst (Builder_stringify b2 s)"
    and i2: "\<forall>cs s. snd (chain cs b2 s) ! b1 = s ! b1
                  \<and> fst (Builder_stringify b1 (snd (chain cs b2 s))) = fst (Builder_stringify b1 s)"
    by blast
  from b have b1: "b1 = 0" and b2: "b2 = 1" by simp_all
  from i1[rule_format, of "[(Class, ''c'')]" "[D, M]"]
  have c1: "snd (chain [(Class, ''c'')] 0 [D, M]) ! 1 = M"
    and c2: "fst (Builder_stringify 1 (snd (chain [(Class, ''c'')] 0 [D, M]))) = ''#main''"
    by (simp_all add: b1 b2 Builder_stringify_def M_def del: chain.simps)
  from i2[rule_format, of "[(Class, ''c'')]" "[D, M]"]
  have c3: "snd (chain [(Class, ''c'')] 1 [D, M]) ! 0 = D"
    by (simp add: b1 b2 del: chain.simps)
  show ?thesis
    unfolding D_def[symmetric] M_def[symmetric]
    by (intro conjI first later second c1 c2 c3)
qed

section \<open>Properties of the rectangle factory\<close>

text \<open>
  Claim C9. For all numbers \<open>w\<close> and \<open>h\<close>, \<^verbatim>\<open>Rectangle(w, h)\<close> returns an object
  with \<^verbatim>\<open>width = w\<close>, \<^verbatim>\<open>height = h\<close> and \<^verbatim>\<open>getArea() = w * h\<close>; the method
  multiplies the arguments of the constructor call, so after the object's
  \<^verbatim>\<open>width\<close> and \<^verbatim>\<open>height\<close> are reassigned it still returns \<open>w * h\<close>.
\<close>

theorem Rectangle_area_is_closed_over_arguments:
  "width (Rectangle w h) = w
   \<and> height (Rectangle w h) = h
   \<and> getArea (Rectangle w h) () = w * h
   \<and> getArea ((Rectangle w h)\<lparr>width := w', height := h'\<rparr>) () = w * h"
  by (simp add: Rectangle_def)

theorem Rectangle_area_is_closed_over_arguments_witness:
  "width (Rectangle (10::int) 20) = 10
   \<and> height (Rectangle (10::int) 20) = 20
   \<and> getArea (Rectangle (10::int) 20) () = 200
   \<and> getArea ((Rectangle (10::int) 20)\<lparr>width := 1, height := 1\<rparr>) () = 200"
  using Rectangle_area_is_closed_over_arguments[of "10::int" 20 1 1]
  by simp

section \<open>What \<^verbatim>\<open>fromJSON\<close> does with the parsed value\<close>

text \<open>
  Whatever \<^verbatim>\<open>JSON.parse\<close> does: its \<^verbatim>\<open>throw\<close> is passed on; for \<^verbatim>\<open>null\<close>
  the call of \<^verbatim>\<open>Object.setPrototypeOf\<close> throws; a primitive is returned as it
  is; an object is returned after its prototype slot was set to \<open>proto\<close>, with its
  properties and every other object as the parser left them. Which text
  \<^verbatim>\<open>JSON.stringify\<close> produces for an object, and which object \<^verbatim>\<open>JSON.parse\<close>
  builds from a text, is the engine's business and is not modelled.
\<close>

lemma fromJSON_outcome:
  "fromJSON JSON_parse proto json h =
     (case JSON_parse json h of
        (Inl e, h1) \<Rightarrow> (Inl e, h1)
      | (Inr Null, h1) \<Rightarrow> (Inl TypeError, h1)
      | (Inr (Primitive p), h1) \<Rightarrow> (Inr (Primitive p), h1)
      | (Inr (Reference r), h1) \<Rightarrow>
          (Inr (Reference r), h1[r := (h1 ! r)\<lparr>prototype := proto\<rparr>]))"
  by (simp add: fromJSON_def split: prod.splits sum.splits jsvalue.splits)

lemma fromJSON_keeps_properties:
  assumes "JSON_parse json h = (Inr (Reference r), h1)"
  shows "map properties (snd (fromJSON JSON_parse proto json h)) = map properties h1"
proof -
  have "snd (fromJSON JSON_parse proto json h) = h1[r := (h1 ! r)\<lparr>prototype := proto\<rparr>]"
    by (simp add: fromJSON_outcome assms)
  moreover have "map properties (h1[r := (h1 ! r)\<lparr>prototype := proto\<rparr>]) = map properties h1"
  proof (cases "r < length h1")
    case True
    then show ?thesis by (simp add: map_update list_update_same_conv)
  next
    case False
    then have "length h1 \<le> r" by simp
    then have "h1[r := (h1 ! r)\<lparr>prototype := proto\<rparr>] = h1"
      by (rule list_update_beyond)
    then show ?thesis by simp
  qed
  ultimately show ?thesis by simp
qed

end
